theory Spec2Isabelle
  imports Main "HOL-Library.Multiset"
begin

section \<open>Python strings and the character database\<close>

text \<open>
  A Python \<^verbatim>\<open>str\<close> is a sequence of Unicode code points; a code point is modelled as a
  natural number and a string as a list of code points.  An ASCII literal of the source is
  written with \<open>ustr\<close>.
\<close>

type_synonym uchar = nat
type_synonym pystr = "uchar list"

definition ustr :: "string \<Rightarrow> pystr" where
  "ustr s = map of_char s"

text \<open>
  \<^verbatim>\<open>str.lower\<close> and \<^verbatim>\<open>str.isalpha\<close> are driven by the tables of the Unicode character
  database that the interpreter ships.  The tables are not part of the program, so they are a
  parameter of the model: the full lower-case mapping of one code point (which may be several
  code points long) and the three properties the interpreter consults.
\<close>

record ucd =
  to_lower_full :: "uchar \<Rightarrow> pystr"
  is_alpha :: "uchar \<Rightarrow> bool"
  is_cased :: "uchar \<Rightarrow> bool"
  is_case_ignorable :: "uchar \<Rightarrow> bool"

text \<open>
  \<^verbatim>\<open>str.lower()\<close> maps every code point through the table, with one exception that the
  interpreter hard-wires: GREEK CAPITAL LETTER SIGMA (U+03A3, 931) becomes the final sigma
  (U+03C2, 962) when it is preceded by a cased letter (skipping case-ignorable characters) and
  not followed by one, and the small sigma (U+03C3, 963) otherwise.  \<open>left\<close> holds the
  characters already passed, the nearest first; \<open>right\<close> the characters still to come.
\<close>

definition final_sigma :: "ucd \<Rightarrow> pystr \<Rightarrow> pystr \<Rightarrow> bool" where
  "final_sigma db left right =
     (case dropWhile (is_case_ignorable db) left of
        [] \<Rightarrow> False
      | c # _ \<Rightarrow>
          is_cased db c \<and>
          (case dropWhile (is_case_ignorable db) right of
             [] \<Rightarrow> True
           | d # _ \<Rightarrow> \<not> is_cased db d))"

definition handle_capital_sigma :: "ucd \<Rightarrow> pystr \<Rightarrow> pystr \<Rightarrow> uchar" where
  "handle_capital_sigma db left right = (if final_sigma db left right then 962 else 963)"

definition lower_ucs4 :: "ucd \<Rightarrow> pystr \<Rightarrow> uchar \<Rightarrow> pystr \<Rightarrow> pystr" where
  "lower_ucs4 db left c right =
     (if c = 931 then [handle_capital_sigma db left right] else to_lower_full db c)"

fun do_lower :: "ucd \<Rightarrow> pystr \<Rightarrow> pystr \<Rightarrow> pystr" where
  "do_lower db left [] = []"
| "do_lower db left (c # right) = lower_ucs4 db left c right @ do_lower db (c # left) right"

definition str_lower :: "ucd \<Rightarrow> pystr \<Rightarrow> pystr" where
  "str_lower db s = do_lower db [] s"

text \<open>
  \<^verbatim>\<open>str.translate(table)\<close>: a code point that is a key of the table is replaced by the
  table's string, every other code point is kept.
\<close>

fun str_translate :: "(uchar \<rightharpoonup> pystr) \<Rightarrow> pystr \<Rightarrow> pystr" where
  "str_translate table [] = []"
| "str_translate table (c # cs) =
     (case table c of None \<Rightarrow> [c] | Some r \<Rightarrow> r) @ str_translate table cs"

section \<open>The sanitizer\<close>

text \<open>\<^verbatim>\<open>str.maketrans({'\t': '____'})\<close>: the tab (9) maps to four underscores (95).\<close>

definition translation_table :: "uchar \<rightharpoonup> pystr" where
  "translation_table = [9 \<mapsto> [95, 95, 95, 95]]"

definition sanitize :: "ucd \<Rightarrow> pystr \<Rightarrow> pystr" where
  "sanitize db s = str_translate translation_table (str_lower db s)"

definition sanitize_chunk :: "pystr \<Rightarrow> ucd \<Rightarrow> pystr" where
  "sanitize_chunk chunk db = sanitize db chunk"

section \<open>Dictionaries and counters\<close>

text \<open>
  A Python \<^verbatim>\<open>dict\<close> keeps its keys in the order of their first insertion, and the sink
  enumerates it in that order, so a dictionary is an association list: assigning to a key
  that is present replaces its value in place, assigning to a new key appends it.
\<close>

type_synonym 'k counter = "('k \<times> nat) list"

definition dict_get :: "'k counter \<Rightarrow> 'k \<Rightarrow> nat \<Rightarrow> nat" where
  "dict_get m k d = (case map_of m k of None \<Rightarrow> d | Some v \<Rightarrow> v)"

fun dict_set :: "'k counter \<Rightarrow> 'k \<Rightarrow> nat \<Rightarrow> 'k counter" where
  "dict_set [] k v = [(k, v)]"
| "dict_set ((k', v') # m) k v =
     (if k' = k then (k', v) # m else (k', v') # dict_set m k v)"

text \<open>
  \<^verbatim>\<open>Counter(iterable)\<close> and \<^verbatim>\<open>Counter.update(iterable)\<close> count one element after the
  other into the counter; \<^verbatim>\<open>Counter.update(mapping)\<close> adds the counts of the mapping, item
  by item.
\<close>

definition count_elements :: "'k counter \<Rightarrow> 'k list \<Rightarrow> 'k counter" where
  "count_elements self xs = fold (\<lambda>elem m. dict_set m elem (dict_get m elem 0 + 1)) xs self"

definition counter_update :: "'k counter \<Rightarrow> 'k counter \<Rightarrow> 'k counter" where
  "counter_update self other =
     fold (\<lambda>(elem, cnt) m. dict_set m elem (cnt + dict_get m elem 0)) other self"

section \<open>Statistics\<close>

definition calculate_statistics_chunk :: "ucd \<Rightarrow> pystr \<Rightarrow> uchar counter" where
  "calculate_statistics_chunk db chunk =
     count_elements [] (filter (is_alpha db) (str_lower db chunk))"

definition calculate :: "ucd \<Rightarrow> pystr list \<Rightarrow> uchar counter" where
  "calculate db chunks =
     fold (\<lambda>chunk counter. count_elements counter (filter (is_alpha db) (str_lower db chunk)))
       chunks []"

text \<open>
  The reduction of \<^verbatim>\<open>TextProcessor.process\<close>: the partial counters are folded into one,
  starting from the empty counter, in the order in which the pool hands them over.
\<close>

definition reduce_partials :: "'k counter list \<Rightarrow> 'k counter" where
  "reduce_partials partials =
     fold (\<lambda>stat_chunk combined. counter_update combined stat_chunk) partials []"

definition combined_statistics :: "ucd \<Rightarrow> pystr list \<Rightarrow> uchar counter" where
  "combined_statistics db chunks =
     reduce_partials
       (map (calculate_statistics_chunk db) (map (\<lambda>chunk. sanitize_chunk chunk db) chunks))"

section \<open>A fragment of the character database\<close>

text \<open>
  The rows of the Unicode character database for Basic Latin (U+0000 to U+007F) and for the
  three Greek sigmas.  In Basic Latin the letters \<open>A\<close> to \<open>Z\<close> (65 to 90) have the lower-case
  forms \<open>a\<close> to \<open>z\<close> (97 to 122), the letters are the alphabetic and the cased characters, and
  the case-ignorable characters are the apostrophe, the full stop, the colon, the circumflex
  and the grave accent.  Code points outside the fragment are kept as they are; the concrete
  evaluations below use code points of the fragment only.
\<close>

definition basic_letter :: "uchar \<Rightarrow> bool" where
  "basic_letter c = ((65 \<le> c \<and> c \<le> 90) \<or> (97 \<le> c \<and> c \<le> 122) \<or> c = 931 \<or> c = 962 \<or> c = 963)"

definition ucd_basic :: ucd where
  "ucd_basic =
     \<lparr> to_lower_full = (\<lambda>c. if 65 \<le> c \<and> c \<le> 90 then [c + 32] else if c = 931 then [963] else [c]),
       is_alpha = basic_letter,
       is_cased = basic_letter,
       is_case_ignorable = (\<lambda>c. c = 39 \<or> c = 46 \<or> c = 58 \<or> c = 94 \<or> c = 96) \<rparr>"

text \<open>
  The fragment with two more letters of the database: DOUBLE-STRUCK CAPITAL C (U+2102, 8450),
  an upper-case letter that has no lower-case form, and the ideograph U+4E2D (20013), a
  letter without case.  Both are alphabetic and are their own lower-case forms; the first is
  cased, the second is not.
\<close>

definition ucd_letters :: ucd where
  "ucd_letters =
     ucd_basic
       \<lparr> is_alpha := (\<lambda>c. basic_letter c \<or> c = 8450 \<or> c = 20013),
         is_cased := (\<lambda>c. basic_letter c \<or> c = 8450) \<rparr>"

text \<open>
  \<^verbatim>\<open>str.islower()\<close> and \<^verbatim>\<open>str.isupper()\<close> on one character of the fragment, that is, the
  properties Lowercase and Uppercase of the database: the program never consults them, they
  say what a lower-case and an upper-case character is.
\<close>

definition is_lowercase :: "uchar \<Rightarrow> bool" where
  "is_lowercase c = ((97 \<le> c \<and> c \<le> 122) \<or> c = 962 \<or> c = 963)"

definition is_uppercase :: "uchar \<Rightarrow> bool" where
  "is_uppercase c = ((65 \<le> c \<and> c \<le> 90) \<or> c = 931 \<or> c = 8450)"

text \<open>
  What the theorems below require of a character database: lower-casing a character that is
  already the result of lower-casing changes nothing, no lower-case form contains the capital
  sigma, and the two small sigmas and the underscore are their own lower-case forms.
\<close>

definition lower_stable :: "ucd \<Rightarrow> bool" where
  "lower_stable db \<longleftrightarrow>
     (\<forall>c. \<forall>d \<in> set (to_lower_full db c). d \<noteq> 931 \<and> to_lower_full db d = [d]) \<and>
     to_lower_full db 962 = [962] \<and> to_lower_full db 963 = [963] \<and> to_lower_full db 95 = [95]"

section \<open>Sources\<close>

text \<open>
  The exceptions a run can end with: \<^verbatim>\<open>ValueError\<close> (the source kind is neither
  \<^verbatim>\<open>file\<close> nor \<^verbatim>\<open>db\<close>), \<^verbatim>\<open>OSError\<close> (opening or mapping the input file),
  \<^verbatim>\<open>UnicodeDecodeError\<close> (decoding a slice of the file) and \<^verbatim>\<open>psycopg2.Error\<close>
  (connecting to the database or running the query).
\<close>

datatype error = ValueError | OSError | UnicodeDecodeError | Psycopg2Error

text \<open>
  \<^verbatim>\<open>InputReader.read\<close> returns a generator.  What a consumer sees of it is the chunks it
  yields and, when it ends by raising, the exception: a pair of the chunks yielded and the
  exception, if any.
\<close>

type_synonym read_result = "pystr list \<times> error option"

fun str_join :: "pystr \<Rightarrow> pystr list \<Rightarrow> pystr" where
  "str_join sep [] = []"
| "str_join sep [x] = x"
| "str_join sep (x # y # ys) = x @ sep @ str_join sep (y # ys)"

text \<open>
  \<^verbatim>\<open>DatabaseInputReader.read\<close>: the connection, the query and \<^verbatim>\<open>fetchall\<close> come before
  the first \<^verbatim>\<open>yield\<close>, so a failure yields no chunk; otherwise every row, its columns
  already rendered by \<^verbatim>\<open>str\<close>, is joined by single spaces (32).
\<close>

definition database_read :: "error + pystr list list \<Rightarrow> read_result" where
  "database_read fetched =
     (case fetched of
        Inl e \<Rightarrow> ([], Some e)
      | Inr rows \<Rightarrow> (map (str_join [32]) rows, None))"

section \<open>The sink\<close>

text \<open>\<^verbatim>\<open>str(count)\<close> for a count: its decimal digits (the digit \<open>0\<close> is 48).\<close>

function str_of_nat :: "nat \<Rightarrow> pystr" where
  "str_of_nat n = (if n < 10 then [48 + n] else str_of_nat (n div 10) @ [48 + n mod 10])"
  by pat_completeness auto
termination
  by (relation "measure (\<lambda>n. n)") auto

declare str_of_nat.simps [simp del]

text \<open>The section header as the source spells it, between two line feeds (10).\<close>

definition header :: pystr where
  "header = [10] @ ustr ''Count of alphabelt:'' @ [10]"

definition stat_line :: "uchar \<times> nat \<Rightarrow> pystr" where
  "stat_line item = (case item of (ch, cnt) \<Rightarrow> [ch] @ ustr '': '' @ str_of_nat cnt @ [10])"

text \<open>
  \<^verbatim>\<open>FileOutputWriter.write\<close> opens the target for writing, which creates or empties it,
  and then consumes the stream: every chunk is written as it arrives.  When the stream raises,
  the exception leaves the function with the file holding the chunks written so far; when
  the stream ends, the header and one line per item of the dictionary follow.  The result is
  the exception, if any, and the contents of the target.
\<close>

definition file_output_write :: "read_result \<Rightarrow> uchar counter \<Rightarrow> error option \<times> pystr" where
  "file_output_write sanitized_text statistics =
     (case snd sanitized_text of
        Some e \<Rightarrow> (Some e, concat (fst sanitized_text))
      | None \<Rightarrow>
          (None, concat (fst sanitized_text) @ header @ concat (map stat_line statistics)))"

section \<open>The pipeline\<close>

text \<open>
  The generator expression of the second pass: it yields the sanitized form of every chunk
  the reader yields and raises what the reader raises.
\<close>

definition sanitized_iterator :: "ucd \<Rightarrow> read_result \<Rightarrow> read_result" where
  "sanitized_iterator db input_text = (map (sanitize db) (fst input_text), snd input_text)"

text \<open>
  \<^verbatim>\<open>TextProcessor.process\<close> reads the source twice; \<open>first\<close> and \<open>second\<close> are what the
  two calls of \<^verbatim>\<open>read\<close> deliver.  The first pass runs through the pool: \<^verbatim>\<open>imap\<close> hands
  the results over in the order of the chunks, and an exception of the reader is raised again
  in the loop that combines the statistics, before the sink is called.  The result is the
  exception the run ends with, if any, and the contents of the target file, \<open>None\<close> when the
  file was never opened.
\<close>

definition process :: "ucd \<Rightarrow> read_result \<Rightarrow> read_result \<Rightarrow> error option \<times> pystr option" where
  "process db first second =
     (case snd first of
        Some e \<Rightarrow> (Some e, None)
      | None \<Rightarrow>
          (case file_output_write (sanitized_iterator db second)
                  (combined_statistics db (fst first)) of
             (raised, file) \<Rightarrow> (raised, Some file)))"

text \<open>
  \<^verbatim>\<open>main\<close>, after the arguments are parsed: a source kind other than \<^verbatim>\<open>file\<close> and
  \<^verbatim>\<open>db\<close> raises \<^verbatim>\<open>ValueError\<close> before a reader or a writer exists.
\<close>

definition main :: "ucd \<Rightarrow> pystr \<Rightarrow> read_result \<Rightarrow> read_result \<Rightarrow> error option \<times> pystr option" where
  "main db source first second =
     (if source = ustr ''file'' \<or> source = ustr ''db'' then process db first second
      else (Some ValueError, None))"

section \<open>Facts about dictionaries\<close>

lemma map_of_dict_set: "map_of (dict_set m k v) = (map_of m)(k \<mapsto> v)"
  by (induction m) (auto simp: fun_eq_iff)

lemma keys_dict_set:
  "map fst (dict_set m k v) = (if k \<in> set (map fst m) then map fst m else map fst m @ [k])"
  by (induction m) (force+)

lemma distinct_dict_set: "distinct (map fst m) \<Longrightarrow> distinct (map fst (dict_set m k v))"
  by (simp add: keys_dict_set)

lemma dict_get_dict_set: "dict_get (dict_set m k v) k' d = (if k' = k then v else dict_get m k' d)"
  by (simp add: dict_get_def map_of_dict_set)

lemma dict_set_twice: "dict_set (dict_set m k v) k w = dict_set m k w"
  by (induction m) auto

lemma dict_set_swap:
  "k \<in> set (map fst m) \<Longrightarrow> k \<noteq> k' \<Longrightarrow>
   dict_set (dict_set m k v) k' v' = dict_set (dict_set m k' v') k v"
  by (induction m) (force+)

lemma sum_dict_set:
  "sum_list (map snd (dict_set m k v)) + dict_get m k 0 = sum_list (map snd m) + v"
  by (induction m) (auto simp: dict_get_def)

subsection \<open>Adding a mapping to a counter\<close>

lemma counter_update_Nil: "counter_update a [] = a"
  by (simp add: counter_update_def)

lemma counter_update_Cons:
  "counter_update a ((k, c) # b) = counter_update (dict_set a k (c + dict_get a k 0)) b"
  by (simp add: counter_update_def)

lemma counter_update_append:
  "counter_update a (b @ c) = counter_update (counter_update a b) c"
  by (simp add: counter_update_def)

lemma keys_counter_update:
  "set (map fst (counter_update a b)) = set (map fst a) \<union> set (map fst b)"
proof (induction b arbitrary: a)
  case Nil
  show ?case by (simp add: counter_update_Nil)
next
  case (Cons p b)
  obtain k c where p: "p = (k, c)" by (cases p)
  show ?case unfolding p counter_update_Cons Cons.IH
    by (auto simp: keys_dict_set)
qed

lemma distinct_counter_update:
  "distinct (map fst a) \<Longrightarrow> distinct (map fst (counter_update a b))"
proof (induction b arbitrary: a)
  case Nil
  then show ?case by (simp add: counter_update_Nil)
next
  case (Cons p b)
  obtain k c where p: "p = (k, c)" by (cases p)
  show ?case unfolding p counter_update_Cons
    by (rule Cons.IH) (rule distinct_dict_set, rule Cons.prems)
qed

lemma map_of_counter_update:
  "distinct (map fst b) \<Longrightarrow>
   map_of (counter_update a b) k =
     (case map_of b k of None \<Rightarrow> map_of a k | Some c \<Rightarrow> Some (c + dict_get a k 0))"
proof (induction b arbitrary: a)
  case Nil
  show ?case by (simp add: counter_update_Nil)
next
  case (Cons p b)
  obtain k' c where p: "p = (k', c)" by (cases p)
  from Cons.prems have d: "distinct (map fst b)" and nk: "k' \<notin> fst ` set b"
    by (auto simp: p)
  have none: "map_of b k' = None" using nk by (simp add: map_of_eq_None_iff)
  show ?case
    unfolding p counter_update_Cons Cons.IH [OF d]
    using none by (auto simp: map_of_dict_set dict_get_dict_set split: option.splits)
qed

lemma sum_counter_update:
  "sum_list (map snd (counter_update a b)) = sum_list (map snd a) + sum_list (map snd b)"
proof (induction b arbitrary: a)
  case Nil
  show ?case by (simp add: counter_update_Nil)
next
  case (Cons p b)
  obtain k c where p: "p = (k, c)" by (cases p)
  have "sum_list (map snd (dict_set a k (c + dict_get a k 0))) = sum_list (map snd a) + c"
    using sum_dict_set [of a k "c + dict_get a k 0"] by simp
  then show ?case unfolding p counter_update_Cons Cons.IH by simp
qed

subsection \<open>Counting the elements of a sequence\<close>

lemma count_elements_Nil: "count_elements m [] = m"
  by (simp add: count_elements_def)

lemma count_elements_Cons:
  "count_elements m (x # xs) = count_elements (dict_set m x (dict_get m x 0 + 1)) xs"
  by (simp add: count_elements_def)

lemma count_elements_append:
  "count_elements m (xs @ ys) = count_elements (count_elements m xs) ys"
  by (simp add: count_elements_def)

lemma count_elements_snoc:
  "count_elements m (xs @ [x]) =
     dict_set (count_elements m xs) x (dict_get (count_elements m xs) x 0 + 1)"
  by (simp add: count_elements_def)

lemma distinct_count_elements:
  "distinct (map fst m) \<Longrightarrow> distinct (map fst (count_elements m xs))"
  by (induction xs arbitrary: m) (simp_all add: count_elements_Nil count_elements_Cons distinct_dict_set)

lemma map_of_count_elements:
  "map_of (count_elements m xs) k =
     (if k \<in> set xs then Some (dict_get m k 0 + count_list xs k) else map_of m k)"
  by (induction xs arbitrary: m)
    (auto simp: count_elements_Nil count_elements_Cons map_of_dict_set dict_get_dict_set)

lemma sum_count_elements:
  "sum_list (map snd (count_elements m xs)) = sum_list (map snd m) + length xs"
proof (induction xs arbitrary: m)
  case Nil
  show ?case by (simp add: count_elements_Nil)
next
  case (Cons x xs)
  have "sum_list (map snd (dict_set m x (dict_get m x 0 + 1))) = sum_list (map snd m) + 1"
    using sum_dict_set [of m x "dict_get m x 0 + 1"] by simp
  then show ?case unfolding count_elements_Cons Cons.IH by simp
qed

subsection \<open>Merging partial counts\<close>

text \<open>
  Adding the counter of a sequence to an accumulator gives, as a dictionary with its order,
  what counting the sequence into the accumulator gives.  So the reduction of the partial
  counters is the counter of the concatenated sequences.
\<close>

lemma counter_update_keeps:
  "k \<notin> set (map fst b) \<Longrightarrow> map_of (counter_update a b) k = map_of a k"
proof (induction b arbitrary: a)
  case Nil
  show ?case by (simp add: counter_update_Nil)
next
  case (Cons p b)
  obtain k' c where p: "p = (k', c)" by (cases p)
  from Cons.prems have "k \<notin> set (map fst b)" and "k \<noteq> k'" by (auto simp: p)
  then show ?case unfolding p counter_update_Cons
    by (simp add: Cons.IH map_of_dict_set)
qed

lemma counter_update_dict_set:
  "x \<in> set (map fst a) \<Longrightarrow> x \<notin> set (map fst b) \<Longrightarrow>
   counter_update (dict_set a x w) b = dict_set (counter_update a b) x w"
proof (induction b arbitrary: a)
  case Nil
  show ?case by (simp add: counter_update_Nil)
next
  case (Cons p b)
  obtain k c where p: "p = (k, c)" by (cases p)
  from Cons.prems have xb: "x \<notin> set (map fst b)" and xk: "x \<noteq> k" by (auto simp: p)
  let ?a' = "dict_set a k (c + dict_get a k 0)"
  have xa': "x \<in> set (map fst ?a')" using Cons.prems(1) by (auto simp: keys_dict_set)
  have "counter_update (dict_set a x w) ((k, c) # b) =
        counter_update (dict_set (dict_set a x w) k (c + dict_get a k 0)) b"
    using xk by (simp add: counter_update_Cons dict_get_dict_set)
  also have "dict_set (dict_set a x w) k (c + dict_get a k 0) = dict_set ?a' x w"
    using Cons.prems(1) xk by (rule dict_set_swap)
  also have "counter_update (dict_set ?a' x w) b = dict_set (counter_update ?a' b) x w"
    using xa' xb by (rule Cons.IH)
  finally show ?case by (simp add: p counter_update_Cons)
qed

lemma counter_update_count_step:
  "distinct (map fst p) \<Longrightarrow>
   counter_update acc (dict_set p x (dict_get p x 0 + 1)) =
     dict_set (counter_update acc p) x (dict_get (counter_update acc p) x 0 + 1)"
proof (induction p arbitrary: acc)
  case Nil
  show ?case by (simp add: counter_update_Nil counter_update_Cons dict_get_def)
next
  case (Cons q p)
  obtain k v where q: "q = (k, v)" by (cases q)
  from Cons.prems have d: "distinct (map fst p)" and kp: "k \<notin> set (map fst p)"
    by (auto simp: q)
  let ?a = "dict_set acc k (v + dict_get acc k 0)"
  show ?case
  proof (cases "k = x")
    case True
    have ka: "x \<in> set (map fst ?a)" using True by (auto simp: keys_dict_set)
    have xp: "x \<notin> set (map fst p)" using kp True by simp
    have g: "dict_get (counter_update ?a p) x 0 = v + dict_get acc k 0"
      using counter_update_keeps [OF xp, of ?a] True
      by (simp add: dict_get_def map_of_dict_set)
    have "counter_update acc (dict_set ((k, v) # p) x (dict_get ((k, v) # p) x 0 + 1)) =
          counter_update (dict_set acc k (v + 1 + dict_get acc k 0)) p"
      using True by (simp add: counter_update_Cons dict_get_def)
    also have "dict_set acc k (v + 1 + dict_get acc k 0) = dict_set ?a x (v + 1 + dict_get acc k 0)"
      using True by (simp add: dict_set_twice)
    also have "counter_update \<dots> p = dict_set (counter_update ?a p) x (v + 1 + dict_get acc k 0)"
      using ka xp by (rule counter_update_dict_set)
    finally show ?thesis using g by (simp add: q counter_update_Cons)
  next
    case False
    have "counter_update acc (dict_set ((k, v) # p) x (dict_get ((k, v) # p) x 0 + 1)) =
          counter_update ?a (dict_set p x (dict_get p x 0 + 1))"
      using False by (simp add: counter_update_Cons dict_get_def)
    also have "\<dots> = dict_set (counter_update ?a p) x (dict_get (counter_update ?a p) x 0 + 1)"
      using d by (rule Cons.IH)
    finally show ?thesis by (simp add: q counter_update_Cons)
  qed
qed

lemma counter_update_count_elements:
  "counter_update acc (count_elements [] xs) = count_elements acc xs"
proof (induction xs rule: rev_induct)
  case Nil
  show ?case by (simp add: count_elements_Nil counter_update_Nil)
next
  case (snoc x xs)
  have d: "distinct (map fst (count_elements ([] :: 'a counter) xs))"
    by (rule distinct_count_elements) simp
  show ?case
    unfolding count_elements_snoc counter_update_count_step [OF d] snoc.IH ..
qed

lemma fold_counter_update_count_elements:
  "fold (\<lambda>stat_chunk combined. counter_update combined stat_chunk)
     (map (count_elements []) xss) acc = count_elements acc (concat xss)"
  by (induction xss arbitrary: acc)
    (simp_all add: count_elements_Nil counter_update_count_elements count_elements_append)

lemma reduce_partials_count_elements:
  "reduce_partials (map (count_elements []) xss) = count_elements [] (concat xss)"
  unfolding reduce_partials_def by (rule fold_counter_update_count_elements)

section \<open>Facts about lower-casing and translation\<close>

lemma lower_ucs4_stable:
  assumes "lower_stable db" and "d \<in> set (lower_ucs4 db left c right)"
  shows "d \<noteq> 931 \<and> to_lower_full db d = [d]"
proof (cases "c = 931")
  case True
  with assms(2) have "d = 962 \<or> d = 963"
    by (auto simp: lower_ucs4_def handle_capital_sigma_def split: if_splits)
  with assms(1) show ?thesis by (auto simp: lower_stable_def)
next
  case False
  with assms(2) have "d \<in> set (to_lower_full db c)" by (simp add: lower_ucs4_def)
  with assms(1) show ?thesis unfolding lower_stable_def by blast
qed

lemma do_lower_stable:
  "lower_stable db \<Longrightarrow> d \<in> set (do_lower db left s) \<Longrightarrow> d \<noteq> 931 \<and> to_lower_full db d = [d]"
proof (induction s arbitrary: left)
  case Nil
  then show ?case by simp
next
  case (Cons c s)
  from Cons.prems(2) consider "d \<in> set (lower_ucs4 db left c s)" | "d \<in> set (do_lower db (c # left) s)"
    by auto
  then show ?case
  proof cases
    case 1
    with Cons.prems(1) show ?thesis by (rule lower_ucs4_stable)
  next
    case 2
    with Cons.prems(1) show ?thesis by (rule Cons.IH)
  qed
qed

lemma do_lower_fixed:
  "\<forall>c \<in> set s. c \<noteq> 931 \<and> to_lower_full db c = [c] \<Longrightarrow> do_lower db left s = s"
  by (induction s arbitrary: left) (simp_all add: lower_ucs4_def)

lemma do_lower_no_sigma:
  "931 \<notin> set s \<Longrightarrow> do_lower db left s = concat (map (to_lower_full db) s)"
  by (induction s arbitrary: left) (auto simp: lower_ucs4_def)

lemma str_lower_no_sigma:
  "931 \<notin> set s \<Longrightarrow> str_lower db s = concat (map (to_lower_full db) s)"
  unfolding str_lower_def by (rule do_lower_no_sigma)

lemma str_translate_concat:
  "str_translate table s = concat (map (\<lambda>c. case table c of None \<Rightarrow> [c] | Some r \<Rightarrow> r) s)"
  by (induction s) simp_all

lemma str_translate_append:
  "str_translate table (s @ t) = str_translate table s @ str_translate table t"
  by (induction s) simp_all

lemma sanitize_tab:
  "sanitize db s = concat (map (\<lambda>c. if c = 9 then [95, 95, 95, 95] else [c]) (str_lower db s))"
proof -
  have "(\<lambda>c. case translation_table c of None \<Rightarrow> [c] | Some r \<Rightarrow> r) =
        (\<lambda>c. if c = 9 then [95, 95, 95, 95] else [c])"
    by (auto simp: translation_table_def fun_eq_iff)
  then show ?thesis by (simp add: sanitize_def str_translate_concat)
qed

lemma set_sanitize:
  "d \<in> set (sanitize db s) \<Longrightarrow> d \<noteq> 9 \<and> (d = 95 \<or> d \<in> set (str_lower db s))"
  by (auto simp: sanitize_tab split: if_splits)

lemma str_translate_no_key:
  "\<forall>c \<in> set s. table c = None \<Longrightarrow> str_translate table s = s"
  by (induction s) simp_all

lemma sanitize_stable:
  assumes "lower_stable db" and "d \<in> set (sanitize db s)"
  shows "d \<noteq> 931 \<and> d \<noteq> 9 \<and> to_lower_full db d = [d]"
proof -
  from set_sanitize [OF assms(2)] have "d \<noteq> 9" and "d = 95 \<or> d \<in> set (str_lower db s)"
    by simp_all
  then show ?thesis
  proof (elim disjE)
    assume "d = 95"
    with assms(1) show ?thesis by (simp add: lower_stable_def)
  next
    assume "d \<in> set (str_lower db s)"
    with do_lower_stable [OF assms(1), of d "[]" s] \<open>d \<noteq> 9\<close> show ?thesis
      by (simp add: str_lower_def)
  qed
qed

lemma str_lower_sanitize:
  assumes "lower_stable db"
  shows "str_lower db (sanitize db s) = sanitize db s"
  unfolding str_lower_def
  by (rule do_lower_fixed) (use sanitize_stable [OF assms] in blast)

lemma str_translate_sanitize:
  "str_translate translation_table (sanitize db s) = sanitize db s"
proof (rule str_translate_no_key)
  show "\<forall>c \<in> set (sanitize db s). translation_table c = None"
    using set_sanitize [of _ db s] by (auto simp: translation_table_def)
qed

section \<open>Merging in any order\<close>

lemma dict_set_absent: "k \<notin> set (map fst m) \<Longrightarrow> dict_set m k v = m @ [(k, v)]"
  by (induction m) auto

lemma dict_get_absent: "k \<notin> set (map fst m) \<Longrightarrow> dict_get m k d = d"
proof -
  assume "k \<notin> set (map fst m)"
  then have "map_of m k = None" by (simp add: map_of_eq_None_iff)
  then show ?thesis by (simp add: dict_get_def)
qed

lemma counter_update_disjoint:
  "distinct (map fst (acc @ b)) \<Longrightarrow> counter_update acc b = acc @ b"
proof (induction b arbitrary: acc)
  case Nil
  show ?case by (simp add: counter_update_Nil)
next
  case (Cons p b)
  obtain k c where p: "p = (k, c)" by (cases p)
  from Cons.prems have k: "k \<notin> set (map fst acc)" and d: "distinct (map fst ((acc @ [(k, c)]) @ b))"
    by (auto simp: p)
  have "counter_update acc ((k, c) # b) = counter_update (acc @ [(k, c)]) b"
    using k by (simp add: counter_update_Cons dict_set_absent dict_get_absent)
  also have "\<dots> = (acc @ [(k, c)]) @ b"
    using d by (rule Cons.IH)
  finally show ?case by (simp add: p)
qed

lemma dict_get_counter_update:
  "distinct (map fst b) \<Longrightarrow> dict_get (counter_update a b) k 0 = dict_get a k 0 + dict_get b k 0"
  by (simp add: dict_get_def map_of_counter_update split: option.splits)

lemma map_of_fold_counter_update:
  "\<forall>p \<in> set ps. distinct (map fst p) \<Longrightarrow>
   map_of (fold (\<lambda>stat_chunk combined. counter_update combined stat_chunk) ps acc) k =
     (if \<exists>p \<in> set ps. k \<in> set (map fst p)
      then Some (dict_get acc k 0 + sum_list (map (\<lambda>p. dict_get p k 0) ps))
      else map_of acc k)"
proof (induction ps arbitrary: acc)
  case Nil
  show ?case by simp
next
  case (Cons p ps)
  from Cons.prems have dp: "distinct (map fst p)" and dps: "\<forall>p \<in> set ps. distinct (map fst p)"
    by simp_all
  have here: "map_of (counter_update acc p) k =
      (if k \<in> set (map fst p) then Some (dict_get acc k 0 + dict_get p k 0) else map_of acc k)"
  proof (cases "map_of p k")
    case None
    then have "k \<notin> set (map fst p)" by (simp add: map_of_eq_None_iff)
    with None show ?thesis by (simp add: map_of_counter_update [OF dp])
  next
    case (Some c)
    then have "k \<in> set (map fst p)" by (auto dest: map_of_SomeD intro: rev_image_eqI)
    with Some show ?thesis by (simp add: map_of_counter_update [OF dp] dict_get_def)
  qed
  show ?case
    using here by (auto simp: Cons.IH [OF dps] dict_get_counter_update [OF dp] dict_get_absent)
qed

lemma map_of_reduce_partials:
  "\<forall>p \<in> set ps. distinct (map fst p) \<Longrightarrow>
   map_of (reduce_partials ps) k =
     (if \<exists>p \<in> set ps. k \<in> set (map fst p)
      then Some (sum_list (map (\<lambda>p. dict_get p k 0) ps))
      else None)"
  by (simp add: reduce_partials_def map_of_fold_counter_update dict_get_def)

lemma sum_list_map_mset:
  "mset ps = mset qs \<Longrightarrow> sum_list (map f ps) = sum_list (map (f :: 'a \<Rightarrow> nat) qs)"
proof -
  assume "mset ps = mset qs"
  then have "mset (map f ps) = mset (map f qs)" by simp
  then have "sum_mset (mset (map f ps)) = sum_mset (mset (map f qs))" by (rule arg_cong)
  then show ?thesis by (simp only: sum_mset_sum_list)
qed

lemma reduce_partials_permuted:
  assumes "mset ps = mset qs" and "\<forall>p \<in> set qs. distinct (map fst p)"
  shows "map_of (reduce_partials ps) = map_of (reduce_partials qs)"
proof
  fix k
  from assms(1) have s: "set ps = set qs" by (rule mset_eq_setD)
  with assms(2) have d: "\<forall>p \<in> set ps. distinct (map fst p)" by simp
  show "map_of (reduce_partials ps) k = map_of (reduce_partials qs) k"
    unfolding map_of_reduce_partials [OF d] map_of_reduce_partials [OF assms(2)] s
      sum_list_map_mset [OF assms(1), of "\<lambda>p. dict_get p k 0"] ..
qed

section \<open>The statistics as one count\<close>

lemma distinct_calculate_statistics_chunk:
  "distinct (map fst (calculate_statistics_chunk db chunk))"
  unfolding calculate_statistics_chunk_def by (rule distinct_count_elements) simp

lemma combined_statistics_count:
  "combined_statistics db chunks =
     count_elements [] (concat (map (\<lambda>chunk. filter (is_alpha db) (str_lower db (sanitize db chunk))) chunks))"
proof -
  have "map (calculate_statistics_chunk db) (map (\<lambda>chunk. sanitize_chunk chunk db) chunks) =
        map (count_elements []) (map (\<lambda>chunk. filter (is_alpha db) (str_lower db (sanitize db chunk))) chunks)"
    by (simp add: calculate_statistics_chunk_def sanitize_chunk_def)
  then show ?thesis
    by (simp only: combined_statistics_def reduce_partials_count_elements)
qed

lemma fold_count_elements:
  "fold (\<lambda>x counter. count_elements counter (f x)) xs acc = count_elements acc (concat (map f xs))"
  by (induction xs arbitrary: acc) (simp_all add: count_elements_Nil count_elements_append)

lemma calculate_count:
  "calculate db chunks =
     count_elements [] (concat (map (\<lambda>chunk. filter (is_alpha db) (str_lower db chunk)) chunks))"
  unfolding calculate_def by (rule fold_count_elements)

lemma combined_statistics_calculate:
  "combined_statistics db chunks = calculate db (map (sanitize db) chunks)"
  by (simp add: combined_statistics_count calculate_count comp_def)

lemma combined_statistics_stable:
  "lower_stable db \<Longrightarrow>
   combined_statistics db chunks =
     count_elements [] (filter (is_alpha db) (concat (map (sanitize db) chunks)))"
  by (simp add: combined_statistics_count str_lower_sanitize filter_concat comp_def)

lemma count_elements_item:
  assumes "(k, v) \<in> set (count_elements [] xs)"
  shows "k \<in> set xs \<and> v = count_list xs k \<and> 0 < v"
proof -
  have "distinct (map fst (count_elements ([] :: 'a counter) xs))"
    by (rule distinct_count_elements) simp
  with assms have m: "map_of (count_elements [] xs) k = Some v" by simp
  show ?thesis
  proof (cases "k \<in> set xs")
    case True
    with m have "v = count_list xs k"
      by (simp add: map_of_count_elements dict_get_def)
    moreover from True have "count_list xs k \<noteq> 0"
      by (simp add: count_list_0_iff)
    ultimately show ?thesis using True by simp
  next
    case False
    with m show ?thesis by (simp add: map_of_count_elements)
  qed
qed

section \<open>Concrete runs on the fragment\<close>

lemma lower_stable_ucd_basic: "lower_stable ucd_basic"
  by (auto simp: lower_stable_def ucd_basic_def split: if_splits)

lemma hello_sanitized:
  "sanitize ucd_basic (ustr ''Hello'' @ [9] @ ustr ''World'') = ustr ''hello____world''"
  by (simp add: sanitize_def str_lower_def lower_ucs4_def ucd_basic_def translation_table_def ustr_def)

lemma hello_statistics:
  "calculate_statistics_chunk ucd_basic (ustr ''hello____world'') =
     [(104, 1), (101, 1), (108, 3), (111, 2), (119, 1), (114, 1), (100, 1)]"
  by (simp add: calculate_statistics_chunk_def str_lower_def lower_ucs4_def ucd_basic_def ustr_def
      count_elements_def dict_get_def basic_letter_def)

section \<open>The sanitizer: what it computes, and idempotence\<close>

text \<open>
  Claim C2.  For every text, \<open>sanitize\<close> is the lower-cased text with every tab replaced
  by exactly four underscores: the result is the lower-cased text, character by character,
  except that a tab (9) stands as four underscores (95); no tab is left in the result; and the
  result is in lower case, that is, lower-casing it again changes nothing (for a character
  database whose lower-casing is stable).  In particular the text \<^verbatim>\<open>Hello\tWorld\<close>
  becomes \<^verbatim>\<open>hello____world\<close>, and its statistics are \<open>h:1, e:1, l:3, o:2, w:1, r:1, d:1\<close>, in
  this order.
\<close>

theorem C2_sanitize_lowercases_and_replaces_tabs:
  "sanitize db s = concat (map (\<lambda>c. if c = 9 then [95, 95, 95, 95] else [c]) (str_lower db s))
   \<and> 9 \<notin> set (sanitize db s)
   \<and> (lower_stable db \<longrightarrow> str_lower db (sanitize db s) = sanitize db s)
   \<and> sanitize ucd_basic (ustr ''Hello'' @ [9] @ ustr ''World'') = ustr ''hello____world''
   \<and> calculate_statistics_chunk ucd_basic
        (sanitize_chunk (ustr ''Hello'' @ [9] @ ustr ''World'') ucd_basic) =
      [(of_char CHR ''h'', 1), (of_char CHR ''e'', 1), (of_char CHR ''l'', 3), (of_char CHR ''o'', 2),
       (of_char CHR ''w'', 1), (of_char CHR ''r'', 1), (of_char CHR ''d'', 1)]"
proof (intro conjI impI)
  show "sanitize db s = concat (map (\<lambda>c. if c = 9 then [95, 95, 95, 95] else [c]) (str_lower db s))"
    by (rule sanitize_tab)
  show "9 \<notin> set (sanitize db s)"
    using set_sanitize [of 9 db s] by blast
  show "str_lower db (sanitize db s) = sanitize db s" if "lower_stable db"
    using that by (rule str_lower_sanitize)
  show "sanitize ucd_basic (ustr ''Hello'' @ [9] @ ustr ''World'') = ustr ''hello____world''"
    by (rule hello_sanitized)
  show "calculate_statistics_chunk ucd_basic
        (sanitize_chunk (ustr ''Hello'' @ [9] @ ustr ''World'') ucd_basic) =
      [(of_char CHR ''h'', 1), (of_char CHR ''e'', 1), (of_char CHR ''l'', 3), (of_char CHR ''o'', 2),
       (of_char CHR ''w'', 1), (of_char CHR ''r'', 1), (of_char CHR ''d'', 1)]"
    unfolding sanitize_chunk_def hello_sanitized hello_statistics by simp
qed

theorem C2_witness:
  "sanitize ucd_basic (ustr ''A'' @ [9] @ ustr ''b'') = ustr ''a____b''
   \<and> 9 \<notin> set (sanitize ucd_basic (ustr ''A'' @ [9] @ ustr ''b''))
   \<and> lower_stable ucd_basic
   \<and> str_lower ucd_basic (sanitize ucd_basic (ustr ''A'' @ [9] @ ustr ''b'')) =
       sanitize ucd_basic (ustr ''A'' @ [9] @ ustr ''b'')"
proof -
  have s: "sanitize ucd_basic (ustr ''A'' @ [9] @ ustr ''b'') = ustr ''a____b''"
    by (simp add: sanitize_def str_lower_def lower_ucs4_def ucd_basic_def translation_table_def ustr_def)
  have l: "lower_stable ucd_basic"
    by (rule lower_stable_ucd_basic)
  from C2_sanitize_lowercases_and_replaces_tabs [of ucd_basic "ustr ''A'' @ [9] @ ustr ''b''"] s l
  show ?thesis by blast
qed

text \<open>
  Claim C5.  For every text \<open>x\<close>, sanitizing the sanitized text gives the sanitized text
  again: \<open>sanitize (sanitize x) = sanitize x\<close>, for every character database whose
  lower-casing is stable.
\<close>

theorem C5_sanitize_idempotent:
  "lower_stable db \<Longrightarrow> sanitize db (sanitize db x) = sanitize db x"
  using str_lower_sanitize [of db x] str_translate_sanitize [of db x]
  by (simp add: sanitize_def)

theorem C5_witness:
  "lower_stable ucd_basic \<and>
   sanitize ucd_basic (sanitize ucd_basic (ustr ''Hello'' @ [9] @ ustr ''World'')) =
     ustr ''hello____world''"
  using C5_sanitize_idempotent [OF lower_stable_ucd_basic, of "ustr ''Hello'' @ [9] @ ustr ''World''"]
    lower_stable_ucd_basic
  unfolding hello_sanitized by simp

section \<open>Merging statistics\<close>

text \<open>
  Claim C6.  The merge of the reduction, \<^verbatim>\<open>combined.update(partial)\<close>, adds the counts
  key by key.  For all dictionaries \<open>a\<close>, \<open>b\<close>, \<open>c\<close> (association lists with distinct
  keys), merging is associative and commutative up to the equality of dictionaries, which
  compares keys and values and not the order of the keys, and the empty dictionary is its
  identity on both sides.  The merge of two dictionaries is a dictionary again.
\<close>

theorem C6_merge_associative_commutative:
  assumes "distinct (map fst a)" and "distinct (map fst b)" and "distinct (map fst c)"
  shows "map_of (counter_update a (counter_update b c)) =
           map_of (counter_update (counter_update a b) c)
       \<and> map_of (counter_update a b) = map_of (counter_update b a)
       \<and> counter_update a [] = a
       \<and> counter_update [] a = a
       \<and> distinct (map fst (counter_update a b))"
proof (intro conjI)
  have dbc: "distinct (map fst (counter_update b c))"
    using assms(2) by (rule distinct_counter_update)
  show "map_of (counter_update a (counter_update b c)) =
          map_of (counter_update (counter_update a b) c)"
  proof
    fix k
    show "map_of (counter_update a (counter_update b c)) k =
            map_of (counter_update (counter_update a b) c) k"
      by (simp add: map_of_counter_update [OF dbc] map_of_counter_update [OF assms(3)]
          map_of_counter_update [OF assms(2)] dict_get_counter_update [OF assms(2)]
          dict_get_def split: option.splits)
  qed
  show "map_of (counter_update a b) = map_of (counter_update b a)"
  proof
    fix k
    show "map_of (counter_update a b) k = map_of (counter_update b a) k"
      by (simp add: map_of_counter_update [OF assms(1)] map_of_counter_update [OF assms(2)]
          dict_get_def split: option.splits)
  qed
  show "counter_update a [] = a"
    by (rule counter_update_Nil)
  show "counter_update [] a = a"
    using counter_update_disjoint [of "[]" a] assms(1) by simp
  show "distinct (map fst (counter_update a b))"
    using assms(1) by (rule distinct_counter_update)
qed

theorem C6_witness:
  "distinct (map fst [(97 :: nat, 2 :: nat), (98, 1)]) \<and> distinct (map fst [(98 :: nat, 3 :: nat)])
   \<and> distinct (map fst [(99 :: nat, 1 :: nat), (97, 1)])
   \<and> map_of (counter_update [(97 :: nat, 2), (98, 1)] (counter_update [(98, 3)] [(99, 1), (97, 1)])) =
       map_of (counter_update (counter_update [(97, 2), (98, 1)] [(98, 3)]) [(99, 1), (97, 1)])
   \<and> map_of (counter_update [(97 :: nat, 2), (98, 1)] [(98, 3)]) =
       map_of (counter_update [(98, 3)] [(97, 2), (98, 1)])
   \<and> counter_update [(97 :: nat, 2), (98, 1)] [(98, 3)] = [(97, 2), (98, 4)]
   \<and> counter_update [(98 :: nat, 3)] [(97, 2), (98, 1)] = [(98, 4), (97, 2)]"
proof -
  have d: "distinct (map fst [(97 :: nat, 2 :: nat), (98, 1)])" "distinct (map fst [(98 :: nat, 3 :: nat)])"
    "distinct (map fst [(99 :: nat, 1 :: nat), (97, 1)])"
    by simp_all
  have e: "counter_update [(97 :: nat, 2), (98, 1)] [(98, 3)] = [(97, 2), (98, 4)]"
    "counter_update [(98 :: nat, 3)] [(97, 2), (98, 1)] = [(98, 4), (97, 2)]"
    by (simp_all add: counter_update_def dict_get_def)
  from C6_merge_associative_commutative [OF d] d e show ?thesis
    by blast
qed

section \<open>Conservation\<close>

text \<open>
  Claim C3.  For every sequence of chunks, the values of the statistics that the pipeline
  combines add up to the number of alphabetic characters of the fully sanitized text, the
  concatenation of the sanitized chunks (for a character database whose lower-casing is
  stable).
\<close>

theorem C3_statistics_sum_is_alphabetic_count:
  "lower_stable db \<Longrightarrow>
   sum_list (map snd (combined_statistics db chunks)) =
     length (filter (is_alpha db) (concat (map (sanitize db) chunks)))"
  by (simp add: combined_statistics_stable sum_count_elements)

theorem C3_witness:
  "lower_stable ucd_basic \<and>
   sum_list (map snd (combined_statistics ucd_basic [ustr ''Ab'' @ [9], ustr ''1a''])) = 3 \<and>
   length (filter (is_alpha ucd_basic)
     (concat (map (sanitize ucd_basic) [ustr ''Ab'' @ [9], ustr ''1a'']))) = 3"
proof -
  have n: "length (filter (is_alpha ucd_basic)
     (concat (map (sanitize ucd_basic) [ustr ''Ab'' @ [9], ustr ''1a'']))) = 3"
    by (simp add: sanitize_def str_lower_def lower_ucs4_def ucd_basic_def translation_table_def
        ustr_def basic_letter_def)
  from C3_statistics_sum_is_alphabetic_count [OF lower_stable_ucd_basic,
      of "[ustr ''Ab'' @ [9], ustr ''1a'']"] n lower_stable_ucd_basic
  show ?thesis by simp
qed

section \<open>The shape of the statistics\<close>

lemma str_lower_single:
  assumes "lower_stable db" and "k \<in> set (str_lower db s)"
  shows "str_lower db [k] = [k]"
proof -
  from do_lower_stable [OF assms(1), of k "[]" s] assms(2)
  have "k \<noteq> 931" and "to_lower_full db k = [k]" by (simp_all add: str_lower_def)
  then show ?thesis by (simp add: str_lower_def lower_ucs4_def)
qed

lemma counted_item:
  assumes "lower_stable db"
    and "(k, v) \<in> set (count_elements [] (concat (map (\<lambda>chunk. filter (is_alpha db) (str_lower db (f chunk))) chunks)))"
  shows "is_alpha db k \<and> str_lower db [k] = [k] \<and> 0 < v"
proof -
  from count_elements_item [OF assms(2)]
  have k: "k \<in> set (concat (map (\<lambda>chunk. filter (is_alpha db) (str_lower db (f chunk))) chunks))"
    and v: "0 < v" by simp_all
  from k obtain chunk where "is_alpha db k" and "k \<in> set (str_lower db (f chunk))" by auto
  with assms(1) v show ?thesis by (simp add: str_lower_single)
qed

text \<open>
  Claim C10, as amended.  Every entry of a statistics dictionary that the program computes,
  the partial count of one chunk, the combined statistics of the pipeline and the result of
  the sequential calculator, has as its key one character that is alphabetic and that
  lower-casing leaves unchanged, and as its value a strictly positive count; there is no
  entry with the count zero (for a character database whose lower-casing is stable).  The
  key need not be a lower-case letter.
\<close>

theorem C10_statistics_keys_and_values:
  assumes "lower_stable db"
    and "(k, v) \<in> set (calculate_statistics_chunk db chunk)
         \<or> (k, v) \<in> set (combined_statistics db chunks)
         \<or> (k, v) \<in> set (calculate db chunks)"
  shows "is_alpha db k \<and> str_lower db [k] = [k] \<and> 0 < v"
  using assms(2)
proof (elim disjE)
  assume "(k, v) \<in> set (calculate_statistics_chunk db chunk)"
  then have "(k, v) \<in> set (count_elements []
      (concat (map (\<lambda>chunk. filter (is_alpha db) (str_lower db chunk)) [chunk])))"
    by (simp add: calculate_statistics_chunk_def)
  with assms(1) show ?thesis by (rule counted_item [where f = "\<lambda>chunk. chunk"])
next
  assume "(k, v) \<in> set (combined_statistics db chunks)"
  then have "(k, v) \<in> set (count_elements []
      (concat (map (\<lambda>chunk. filter (is_alpha db) (str_lower db (sanitize db chunk))) chunks)))"
    by (simp only: combined_statistics_count)
  with assms(1) show ?thesis by (rule counted_item)
next
  assume "(k, v) \<in> set (calculate db chunks)"
  then have "(k, v) \<in> set (count_elements []
      (concat (map (\<lambda>chunk. filter (is_alpha db) (str_lower db chunk)) chunks)))"
    by (simp only: calculate_count)
  with assms(1) show ?thesis by (rule counted_item [where f = "\<lambda>chunk. chunk"])
qed

lemma two_chunks_statistics:
  "combined_statistics ucd_basic [ustr ''Ab'' @ [9], ustr ''1a''] = [(97, 2), (98, 1)]"
  by (simp add: combined_statistics_def reduce_partials_def counter_update_def
      calculate_statistics_chunk_def count_elements_def dict_get_def sanitize_chunk_def
      sanitize_def str_lower_def lower_ucs4_def ucd_basic_def translation_table_def
      ustr_def basic_letter_def)

theorem C10_witness:
  "lower_stable ucd_basic
   \<and> (97, 2) \<in> set (combined_statistics ucd_basic [ustr ''Ab'' @ [9], ustr ''1a''])
   \<and> is_alpha ucd_basic 97 \<and> str_lower ucd_basic [97] = [97] \<and> (0 :: nat) < 2"
proof -
  have m: "(97, 2) \<in> set (combined_statistics ucd_basic [ustr ''Ab'' @ [9], ustr ''1a''])"
    unfolding two_chunks_statistics by simp
  from C10_statistics_keys_and_values [OF lower_stable_ucd_basic disjI2 [OF disjI1 [OF m]]]
    m lower_stable_ucd_basic
  show ?thesis by simp
qed

lemma lower_stable_ucd_letters: "lower_stable ucd_letters"
  by (auto simp: lower_stable_def ucd_letters_def ucd_basic_def split: if_splits)

text \<open>
  Claim C10 as stated, every key a lower-case character, fails for letters that lower-casing
  leaves unchanged although they are not lower-case letters.  The chunk of U+2102, U+4E2D
  and \<open>A\<close> is counted as U+2102, U+4E2D and \<open>a\<close>, once each: the first key is an upper-case
  letter, the second a letter without case, and neither is a lower-case character.
\<close>

theorem C10_counterexample:
  "calculate_statistics_chunk ucd_letters (sanitize_chunk [8450, 20013, 65] ucd_letters) =
     [(8450, 1), (20013, 1), (97, 1)]
   \<and> combined_statistics ucd_letters [[8450, 20013, 65]] = [(8450, 1), (20013, 1), (97, 1)]
   \<and> lower_stable ucd_letters
   \<and> is_alpha ucd_letters 8450 \<and> is_uppercase 8450 \<and> \<not> is_lowercase 8450
   \<and> is_alpha ucd_letters 20013 \<and> \<not> is_lowercase 20013"
proof -
  have a: "calculate_statistics_chunk ucd_letters (sanitize_chunk [8450, 20013, 65] ucd_letters) =
     [(8450, 1), (20013, 1), (97, 1)]"
    by (simp add: calculate_statistics_chunk_def count_elements_def dict_get_def sanitize_chunk_def
      sanitize_def str_lower_def lower_ucs4_def ucd_letters_def ucd_basic_def translation_table_def
      basic_letter_def)
  have b: "combined_statistics ucd_letters [[8450, 20013, 65]] = [(8450, 1), (20013, 1), (97, 1)]"
    by (simp add: combined_statistics_def reduce_partials_def counter_update_def dict_get_def a)
  have c: "is_alpha ucd_letters 8450 \<and> is_uppercase 8450 \<and> \<not> is_lowercase 8450
      \<and> is_alpha ucd_letters 20013 \<and> \<not> is_lowercase 20013"
    by (simp add: ucd_letters_def is_uppercase_def is_lowercase_def)
  from a b c lower_stable_ucd_letters show ?thesis by simp
qed

section \<open>Independence of the order of the partial results\<close>

lemma process_ok:
  "process db (chunks1, None) (chunks2, None) =
     (None, Some (concat (map (sanitize db) chunks2) @ header @
        concat (map stat_line (combined_statistics db chunks1))))"
  by (simp add: process_def file_output_write_def sanitized_iterator_def)

text \<open>
  Claim C9.  Whatever the order in which the partial statistics of the chunks are merged
  (any permutation of them), the merged dictionary has the keys and values of the sequential
  calculation over the sanitized chunks; merged in the order of the chunks, as the pool
  delivers them, it is that dictionary with the same key order.  A run whose two reads
  deliver the same chunks writes the sanitized chunks in their original order, followed by
  the header and the lines of these statistics.
\<close>

theorem C9_output_and_statistics_as_sequential:
  assumes "mset partials =
      mset (map (calculate_statistics_chunk db) (map (\<lambda>chunk. sanitize_chunk chunk db) chunks))"
  shows "map_of (reduce_partials partials) = map_of (calculate db (map (sanitize db) chunks))
       \<and> combined_statistics db chunks = calculate db (map (sanitize db) chunks)
       \<and> process db (chunks, None) (chunks, None) =
           (None, Some (concat (map (sanitize db) chunks) @ header @
              concat (map stat_line (calculate db (map (sanitize db) chunks)))))"
proof (intro conjI)
  let ?qs = "map (calculate_statistics_chunk db) (map (\<lambda>chunk. sanitize_chunk chunk db) chunks)"
  have d: "\<forall>p \<in> set ?qs. distinct (map fst p)"
    by (auto simp: distinct_calculate_statistics_chunk)
  have "map_of (reduce_partials partials) = map_of (reduce_partials ?qs)"
    using assms d by (rule reduce_partials_permuted)
  also have "reduce_partials ?qs = combined_statistics db chunks"
    by (simp add: combined_statistics_def)
  finally show "map_of (reduce_partials partials) = map_of (calculate db (map (sanitize db) chunks))"
    by (simp only: combined_statistics_calculate)
  show "combined_statistics db chunks = calculate db (map (sanitize db) chunks)"
    by (rule combined_statistics_calculate)
  show "process db (chunks, None) (chunks, None) =
           (None, Some (concat (map (sanitize db) chunks) @ header @
              concat (map stat_line (calculate db (map (sanitize db) chunks)))))"
    by (simp only: process_ok combined_statistics_calculate)
qed


lemma two_chunks_partials:
  "map (calculate_statistics_chunk ucd_basic)
     (map (\<lambda>chunk. sanitize_chunk chunk ucd_basic) [ustr ''Ab'' @ [9], ustr ''1a'']) =
   [[(97, 1), (98, 1)], [(97, 1)]]"
  by (simp add: calculate_statistics_chunk_def count_elements_def dict_get_def sanitize_chunk_def
      sanitize_def str_lower_def lower_ucs4_def ucd_basic_def translation_table_def
      ustr_def basic_letter_def)

lemma two_chunks_sanitized:
  "map (sanitize ucd_basic) [ustr ''Ab'' @ [9], ustr ''1a''] = [ustr ''ab____'', ustr ''1a'']"
  by (simp add: sanitize_def str_lower_def lower_ucs4_def ucd_basic_def translation_table_def
      ustr_def)

theorem C9_witness:
  "mset [[(97, 1)], [(97, 1), (98, 1)]] =
     mset (map (calculate_statistics_chunk ucd_basic)
       (map (\<lambda>chunk. sanitize_chunk chunk ucd_basic) [ustr ''Ab'' @ [9], ustr ''1a'']))
   \<and> map_of (reduce_partials [[(97, 1)], [(97, 1), (98, 1)]]) =
       map_of (calculate ucd_basic (map (sanitize ucd_basic) [ustr ''Ab'' @ [9], ustr ''1a'']))
   \<and> calculate ucd_basic (map (sanitize ucd_basic) [ustr ''Ab'' @ [9], ustr ''1a'']) =
       [(97, 2), (98, 1)]
   \<and> process ucd_basic ([ustr ''Ab'' @ [9], ustr ''1a''], None) ([ustr ''Ab'' @ [9], ustr ''1a''], None) =
       (None, Some (concat [ustr ''ab____'', ustr ''1a''] @ header @
          concat (map stat_line [(97, 2), (98, 1)])))"
proof -
  have p: "mset [[(97, 1)], [(97, 1), (98, 1)]] =
     mset (map (calculate_statistics_chunk ucd_basic)
       (map (\<lambda>chunk. sanitize_chunk chunk ucd_basic) [ustr ''Ab'' @ [9], ustr ''1a'']))"
    unfolding two_chunks_partials by (simp add: add_mset_commute)
  from C9_output_and_statistics_as_sequential [OF p] p
  show ?thesis
    unfolding two_chunks_sanitized two_chunks_statistics by simp
qed

section \<open>Chunk invariance\<close>

lemma sanitize_append:
  "931 \<notin> set (s @ t) \<Longrightarrow> sanitize db (s @ t) = sanitize db s @ sanitize db t"
  by (simp add: sanitize_def str_lower_no_sigma str_translate_append)

lemma sanitize_concat:
  "931 \<notin> set (concat chunks) \<Longrightarrow>
   sanitize db (concat chunks) = concat (map (sanitize db) chunks)"
proof (induction chunks)
  case Nil
  show ?case by (simp add: sanitize_def str_lower_def)
next
  case (Cons c chunks)
  from Cons.prems have "931 \<notin> set (c @ concat chunks)" and "931 \<notin> set (concat chunks)"
    by simp_all
  then show ?case by (simp add: sanitize_append Cons.IH)
qed

text \<open>
  Claim C7, as amended.  For every text without the Greek capital sigma (U+03A3) and every
  way of splitting it into chunks, the merged statistics of the chunks are the statistics
  of the whole text, with the same key order (for a character database whose lower-casing is
  stable).
\<close>

theorem C7_chunk_invariance_without_capital_sigma:
  assumes "lower_stable db" and "931 \<notin> set (concat chunks)"
  shows "combined_statistics db chunks =
           calculate_statistics_chunk db (sanitize_chunk (concat chunks) db)"
proof -
  have "calculate_statistics_chunk db (sanitize_chunk (concat chunks) db) =
        count_elements [] (filter (is_alpha db) (sanitize db (concat chunks)))"
    using assms(1) by (simp add: calculate_statistics_chunk_def sanitize_chunk_def str_lower_sanitize)
  also have "\<dots> = count_elements [] (filter (is_alpha db) (concat (map (sanitize db) chunks)))"
    by (simp only: sanitize_concat [OF assms(2)])
  also have "\<dots> = combined_statistics db chunks"
    by (simp only: combined_statistics_stable [OF assms(1)])
  finally show ?thesis by (rule sym)
qed

theorem C7_witness:
  "lower_stable ucd_basic \<and> 931 \<notin> set (concat [ustr ''Ab'' @ [9], ustr ''1a''])
   \<and> combined_statistics ucd_basic [ustr ''Ab'' @ [9], ustr ''1a''] = [(97, 2), (98, 1)]
   \<and> calculate_statistics_chunk ucd_basic
       (sanitize_chunk (concat [ustr ''Ab'' @ [9], ustr ''1a'']) ucd_basic) = [(97, 2), (98, 1)]"
proof -
  have n: "931 \<notin> set (concat [ustr ''Ab'' @ [9], ustr ''1a''])"
    by (simp add: ustr_def)
  from C7_chunk_invariance_without_capital_sigma [OF lower_stable_ucd_basic n]
    lower_stable_ucd_basic n
  show ?thesis unfolding two_chunks_statistics by simp
qed

text \<open>
  Claim C7 as stated fails where a chunk boundary separates a capital sigma from the letter
  before it.  The text \<open>a\<Sigma>\<close> (97, 931) is lower-cased as a whole to \<open>a\<close> and the final
  sigma (962); split into the chunks \<open>a\<close> and \<open>\<Sigma>\<close>, the second chunk is lower-cased to
  the small sigma (963).  The merged statistics count the small sigma, the statistics of the
  whole text count the final sigma.
\<close>

theorem C7_counterexample:
  "concat [[97], [931]] = [97, 931 :: nat]
   \<and> combined_statistics ucd_basic [[97], [931]] = [(97, 1), (963, 1)]
   \<and> calculate_statistics_chunk ucd_basic (sanitize_chunk [97, 931] ucd_basic) =
       [(97, 1), (962, 1)]
   \<and> map_of (combined_statistics ucd_basic [[97], [931]]) \<noteq>
       map_of (calculate_statistics_chunk ucd_basic (sanitize_chunk [97, 931] ucd_basic))"
proof -
  have a: "combined_statistics ucd_basic [[97], [931]] = [(97, 1), (963, 1)]"
    by (simp add: combined_statistics_def reduce_partials_def counter_update_def
      calculate_statistics_chunk_def count_elements_def dict_get_def sanitize_chunk_def
      sanitize_def str_lower_def lower_ucs4_def handle_capital_sigma_def final_sigma_def
      ucd_basic_def translation_table_def basic_letter_def)
  have b: "calculate_statistics_chunk ucd_basic (sanitize_chunk [97, 931] ucd_basic) =
       [(97, 1), (962, 1)]"
    by (simp add: calculate_statistics_chunk_def count_elements_def dict_get_def sanitize_chunk_def
      sanitize_def str_lower_def lower_ucs4_def handle_capital_sigma_def final_sigma_def
      ucd_basic_def translation_table_def basic_letter_def)
  have "map_of [(97 :: nat, 1 :: nat), (963, 1)] 963 \<noteq> map_of [(97, 1), (962, 1)] (963 :: nat)"
    by simp
  then have c: "map_of [(97 :: nat, 1 :: nat), (963, 1)] \<noteq> map_of [(97, 1), (962, 1)]"
    by metis
  show ?thesis unfolding a b using c by simp
qed

section \<open>The empty source\<close>

text \<open>
  Claim C8.  For the empty sequence of chunks, which is also what the database reader
  delivers for a query without rows, the stream handed to the sink is empty, the statistics
  are the empty dictionary, and the run ends without an exception; the target then holds the
  header alone.
\<close>

theorem C8_empty_chunk_sequence:
  "database_read (Inr []) = ([], None)
   \<and> sanitized_iterator db ([], None) = ([], None)
   \<and> combined_statistics db [] = []
   \<and> process db ([], None) ([], None) = (None, Some header)"
  by (simp add: database_read_def sanitized_iterator_def combined_statistics_def
      reduce_partials_def process_def file_output_write_def)

theorem C8_witness:
  "process ucd_basic (database_read (Inr [])) (database_read (Inr [])) =
     (None, Some ([10] @ ustr ''Count of alphabelt:'' @ [10]))"
  using C8_empty_chunk_sequence [of ucd_basic] by (simp add: header_def)

section \<open>Errors\<close>

lemma process_first_raises:
  "process db (chunks1, Some e) second = (Some e, None)"
  by (simp add: process_def)

lemma process_second_raises:
  "process db (chunks1, None) (chunks2, Some e) = (Some e, Some (concat (map (sanitize db) chunks2)))"
  by (simp add: process_def file_output_write_def sanitized_iterator_def)

text \<open>
  Claim C4, as amended.  A source kind that is neither \<^verbatim>\<open>file\<close> nor \<^verbatim>\<open>db\<close>, and every
  exception of the first read, end the run before the target is opened: nothing is written.
  A run in which neither read raises writes the complete stream, the header and the
  complete statistics.  An exception of the second read, which the sink consumes while it
  writes, ends the run with the target holding the sanitized chunks delivered before the
  exception, and neither header nor statistics.  A failing database read delivers no chunk.
\<close>

theorem C4_errors_before_and_during_writing:
  "(source \<noteq> ustr ''file'' \<and> source \<noteq> ustr ''db'' \<longrightarrow>
      main db source first second = (Some ValueError, None))
   \<and> (snd first = Some e \<longrightarrow> process db first second = (Some e, None))
   \<and> (snd first = None \<and> snd second = None \<longrightarrow>
        process db first second =
          (None, Some (concat (map (sanitize db) (fst second)) @ header @
             concat (map stat_line (combined_statistics db (fst first))))))
   \<and> (snd first = None \<and> snd second = Some e \<longrightarrow>
        process db first second = (Some e, Some (concat (map (sanitize db) (fst second)))))
   \<and> database_read (Inl e) = ([], Some e)"
proof (intro conjI impI)
  show "main db source first second = (Some ValueError, None)"
    if "source \<noteq> ustr ''file'' \<and> source \<noteq> ustr ''db''"
    using that by (simp add: main_def)
  show "process db first second = (Some e, None)" if "snd first = Some e"
    using that process_first_raises [of db "fst first" e second] by (cases first) simp
  show "process db first second =
          (None, Some (concat (map (sanitize db) (fst second)) @ header @
             concat (map stat_line (combined_statistics db (fst first)))))"
    if "snd first = None \<and> snd second = None"
    using that process_ok [of db "fst first" "fst second"] by (cases first, cases second) simp
  show "process db first second = (Some e, Some (concat (map (sanitize db) (fst second))))"
    if "snd first = None \<and> snd second = Some e"
    using that process_second_raises [of db "fst first" "fst second" e]
    by (cases first, cases second) simp
  show "database_read (Inl e) = ([], Some e)"
    by (simp add: database_read_def)
qed

theorem C4_witness:
  "ustr ''csv'' \<noteq> ustr ''file'' \<and> ustr ''csv'' \<noteq> ustr ''db''
   \<and> main ucd_basic (ustr ''csv'') ([ustr ''ab''], None) ([ustr ''ab''], None) = (Some ValueError, None)
   \<and> process ucd_basic ([ustr ''ab''], Some OSError) ([ustr ''ab''], None) = (Some OSError, None)
   \<and> process ucd_basic ([ustr ''ab''], None) ([ustr ''ab''], None) =
       (None, Some (ustr ''ab'' @ header @ stat_line (97, 1) @ stat_line (98, 1)))
   \<and> process ucd_basic ([ustr ''ab''], None) ([ustr ''ab''], Some OSError) =
       (Some OSError, Some (ustr ''ab''))"
proof -
  have s: "ustr ''csv'' \<noteq> ustr ''file'' \<and> ustr ''csv'' \<noteq> ustr ''db''"
    by (simp add: ustr_def)
  have t: "map (sanitize ucd_basic) [ustr ''ab''] = [ustr ''ab'']"
    by (simp add: sanitize_def str_lower_def lower_ucs4_def ucd_basic_def translation_table_def
        ustr_def)
  have c: "combined_statistics ucd_basic [ustr ''ab''] = [(97, 1), (98, 1)]"
    by (simp add: combined_statistics_def reduce_partials_def counter_update_def
      calculate_statistics_chunk_def count_elements_def dict_get_def sanitize_chunk_def
      sanitize_def str_lower_def lower_ucs4_def ucd_basic_def translation_table_def
      ustr_def basic_letter_def)
  from C4_errors_before_and_during_writing
    [of "ustr ''csv''" ucd_basic "([ustr ''ab''], None)" "([ustr ''ab''], None)" OSError]
  have 1: "main ucd_basic (ustr ''csv'') ([ustr ''ab''], None) ([ustr ''ab''], None) =
      (Some ValueError, None)"
    using s by blast
  from C4_errors_before_and_during_writing
    [of _ ucd_basic "([ustr ''ab''], Some OSError)" "([ustr ''ab''], None)" OSError]
  have 2: "process ucd_basic ([ustr ''ab''], Some OSError) ([ustr ''ab''], None) = (Some OSError, None)"
    by simp
  from C4_errors_before_and_during_writing
    [of _ ucd_basic "([ustr ''ab''], None)" "([ustr ''ab''], None)"]
  have 3: "process ucd_basic ([ustr ''ab''], None) ([ustr ''ab''], None) =
       (None, Some (ustr ''ab'' @ header @ stat_line (97, 1) @ stat_line (98, 1)))"
    unfolding fst_conv snd_conv t c by simp
  from C4_errors_before_and_during_writing
    [of _ ucd_basic "([ustr ''ab''], None)" "([ustr ''ab''], Some OSError)" OSError]
  have 4: "process ucd_basic ([ustr ''ab''], None) ([ustr ''ab''], Some OSError) =
       (Some OSError, Some (ustr ''ab''))"
    unfolding fst_conv snd_conv t by simp
  from s 1 2 3 4 show ?thesis by blast
qed

text \<open>
  Claim C4 as stated fails where the second read raises.  When the first read delivers two
  chunks and the second read raises after the first of them, the run ends with the exception
  and the target holds that first chunk; when the second connection to the database fails,
  the run ends with the exception and the target has been opened and emptied.
\<close>

theorem C4_counterexample:
  "process ucd_basic ([ustr ''ab'', ustr ''cd''], None) ([ustr ''ab''], Some UnicodeDecodeError) =
     (Some UnicodeDecodeError, Some (ustr ''ab''))
   \<and> process ucd_basic (database_read (Inr [[ustr ''ab'']])) (database_read (Inl Psycopg2Error)) =
       (Some Psycopg2Error, Some [])"
  by (simp add: process_def file_output_write_def sanitized_iterator_def database_read_def
      sanitize_def str_lower_def lower_ucs4_def ucd_basic_def translation_table_def ustr_def)

section \<open>The output file\<close>

lemma keys_count_elements_set:
  "set (map fst (count_elements [] xs)) = set xs"
proof (induction xs rule: rev_induct)
  case Nil
  show ?case by (simp add: count_elements_Nil)
next
  case (snoc x xs)
  then show ?case by (auto simp: count_elements_snoc keys_dict_set)
qed

lemma keys_count_elements:
  "map fst (count_elements [] xs) = rev (remdups (rev xs))"
proof (induction xs rule: rev_induct)
  case Nil
  show ?case by (simp add: count_elements_Nil)
next
  case (snoc x xs)
  have "map fst (count_elements [] (xs @ [x])) =
        (if x \<in> set xs then map fst (count_elements [] xs) else map fst (count_elements [] xs) @ [x])"
    using keys_count_elements_set [of xs] by (simp add: count_elements_snoc keys_dict_set)
  then show ?case by (simp add: snoc.IH)
qed

lemma one_chunk_run:
  "process ucd_basic ([ustr ''a''], None) ([ustr ''a''], None) =
     (None, Some (ustr ''a'' @ [10] @ ustr ''Count of alphabelt:'' @ [10] @ ustr ''a: 1'' @ [10]))"
proof -
  have t: "map (sanitize ucd_basic) [ustr ''a''] = [ustr ''a'']"
    by (simp add: sanitize_def str_lower_def lower_ucs4_def ucd_basic_def translation_table_def
        ustr_def)
  have c: "combined_statistics ucd_basic [ustr ''a''] = [(97, 1)]"
    by (simp add: combined_statistics_def reduce_partials_def counter_update_def
      calculate_statistics_chunk_def count_elements_def dict_get_def sanitize_chunk_def
      sanitize_def str_lower_def lower_ucs4_def ucd_basic_def translation_table_def
      ustr_def basic_letter_def)
  have n: "str_of_nat (Suc 0) = [49]"
    by (subst str_of_nat.simps) simp
  have l: "stat_line (97, Suc 0) = ustr ''a: 1'' @ [10]"
    by (simp add: stat_line_def ustr_def n)
  show ?thesis
    unfolding process_ok t c by (simp add: l header_def)
qed

text \<open>
  Claim C1.  A run that completes writes the sanitized chunks in their order, then the
  header between two line feeds, then one line per entry of the statistics, the character,
  a colon, a space, the decimal count and a line feed, the entries in the order of the first
  occurrence of their characters.  The header the source writes is
  \<^verbatim>\<open>Count of alphabelt:\<close>, not \<^verbatim>\<open>Count of alphabet:\<close>: for the one-chunk input
  \<^verbatim>\<open>a\<close> the file differs from the one the claim describes.
\<close>

theorem C1_output_format_with_header_as_written:
  "process db (chunks, None) (chunks, None) =
     (None, Some (concat (map (sanitize db) chunks) @ header @
        concat (map stat_line (combined_statistics db chunks))))
   \<and> map fst (combined_statistics db chunks) =
       rev (remdups (rev (concat
         (map (\<lambda>chunk. filter (is_alpha db) (str_lower db (sanitize db chunk))) chunks))))
   \<and> stat_line (ch, cnt) = [ch] @ ustr '': '' @ str_of_nat cnt @ [10]
   \<and> header = [10] @ ustr ''Count of alphabelt:'' @ [10]
   \<and> header \<noteq> [10] @ ustr ''Count of alphabet:'' @ [10]
   \<and> process ucd_basic ([ustr ''a''], None) ([ustr ''a''], None) =
       (None, Some (ustr ''a'' @ [10] @ ustr ''Count of alphabelt:'' @ [10] @ ustr ''a: 1'' @ [10]))
   \<and> process ucd_basic ([ustr ''a''], None) ([ustr ''a''], None) \<noteq>
       (None, Some (ustr ''a'' @ [10] @ ustr ''Count of alphabet:'' @ [10] @ ustr ''a: 1'' @ [10]))"
proof (intro conjI)
  show "process db (chunks, None) (chunks, None) =
     (None, Some (concat (map (sanitize db) chunks) @ header @
        concat (map stat_line (combined_statistics db chunks))))"
    by (rule process_ok)
  show "map fst (combined_statistics db chunks) =
       rev (remdups (rev (concat
         (map (\<lambda>chunk. filter (is_alpha db) (str_lower db (sanitize db chunk))) chunks))))"
    by (simp only: combined_statistics_count keys_count_elements)
  show "stat_line (ch, cnt) = [ch] @ ustr '': '' @ str_of_nat cnt @ [10]"
    by (simp add: stat_line_def)
  show "header = [10] @ ustr ''Count of alphabelt:'' @ [10]"
    by (simp add: header_def)
  show "header \<noteq> [10] @ ustr ''Count of alphabet:'' @ [10]"
    by (simp add: header_def ustr_def)
  show "process ucd_basic ([ustr ''a''], None) ([ustr ''a''], None) =
       (None, Some (ustr ''a'' @ [10] @ ustr ''Count of alphabelt:'' @ [10] @ ustr ''a: 1'' @ [10]))"
    by (rule one_chunk_run)
  show "process ucd_basic ([ustr ''a''], None) ([ustr ''a''], None) \<noteq>
       (None, Some (ustr ''a'' @ [10] @ ustr ''Count of alphabet:'' @ [10] @ ustr ''a: 1'' @ [10]))"
    unfolding one_chunk_run by (simp add: ustr_def)
qed

theorem C1_witness:
  "process ucd_basic ([ustr ''Ab'' @ [9], ustr ''1a''], None) ([ustr ''Ab'' @ [9], ustr ''1a''], None) =
     (None, Some (concat [ustr ''ab____'', ustr ''1a''] @ header @
        concat (map stat_line [(97, 2), (98, 1)])))
   \<and> map fst (combined_statistics ucd_basic [ustr ''Ab'' @ [9], ustr ''1a'']) = [97, 98]"
  using C1_output_format_with_header_as_written [of ucd_basic "[ustr ''Ab'' @ [9], ustr ''1a'']"]
  unfolding two_chunks_sanitized two_chunks_statistics by simp

end
